theory Spec2Isabelle
  imports Complex_Main "HOL-Library.AList" "HOL-Library.Word"
begin

section \<open>Data model of the service enumerator\<close>

text \<open>
  A packet object. \<open>ident\<close> is the identity of the Python object (two packets built
  separately differ in it even when they encode to the same bytes), \<open>raw\<close> is what
  \<^verbatim>\<open>bytes(pkt)\<close> returns, \<open>service\<close> the attribute \<^verbatim>\<open>pkt.service\<close>, \<open>sent_time\<close>
  the attribute stamped by the transport when the packet is sent (\<^verbatim>\<open>None\<close> before),
  and \<open>time\<close> the reception time stamp. The bytes of a packet are a function of the
  packet (it has no field that is drawn anew each time it is built). A packet object is
  always truthy (\<^verbatim>\<open>Packet.__bool__\<close> returns \<^verbatim>\<open>True\<close>), so \<^verbatim>\<open>if res\<close> on an
  optional packet tests \<^verbatim>\<open>res is not None\<close>. Time stamps are floats in the source and
  exact rationals here.
\<close>

type_synonym bytes = "8 word list"

record Packet =
  ident :: nat
  raw :: bytes
  service :: int
  sent_time :: "rat option"
  time :: rat

text \<open>The named tuple \<^verbatim>\<open>_AutomotiveTestCaseScanResult\<close>.\<close>

record 's ScanResult =
  state :: 's
  req :: Packet
  resp :: "Packet option"
  req_ts :: rat
  resp_ts :: "rat option"

text \<open>
  An entry of \<^verbatim>\<open>_retry_pkt\<close>: a single packet, or a sequence of packets
  (\<^verbatim>\<open>Union[Packet, Iterable[Packet]]\<close>). The slot holds \<^verbatim>\<open>None\<close> when nothing is
  pending; the \<^verbatim>\<open>defaultdict(lambda: None)\<close> is a total function.
\<close>

datatype retry_entry = RetryPacket Packet | RetryIterable "Packet list"

text \<open>
  The keyword options of \<^verbatim>\<open>execute\<close> and \<^verbatim>\<open>_evaluate_response\<close>; \<open>None\<close> is a key
  that was not passed, so that \<^verbatim>\<open>kwargs.pop(key, default)\<close> yields the default.
\<close>

record kwargs =
  timeout :: "rat option"
  execution_time :: "rat option"
  exit_if_no_answer_received :: "bool option"
  exit_if_service_not_supported :: "bool option"
  retry_if_busy_returncode :: "bool option"
  exit_scan_on_first_negative_response :: "bool option"

definition kwargs_pop :: "'a option \<Rightarrow> 'a \<Rightarrow> 'a" where
  "kwargs_pop v dflt = (case v of None \<Rightarrow> dflt | Some x \<Rightarrow> x)"

definition no_kwargs :: kwargs where
  "no_kwargs = \<lparr>timeout = None, execution_time = None,
     exit_if_no_answer_received = None, exit_if_service_not_supported = None,
     retry_if_busy_returncode = None, exit_scan_on_first_negative_response = None\<rparr>"

text \<open>
  What the enumerator takes from its subclass and from \<^verbatim>\<open>EcuState\<close>: the abstract
  methods \<^verbatim>\<open>_get_negative_response_code\<close> and \<^verbatim>\<open>_get_initial_requests\<close>, the
  iterator protocol of the iterable the latter returns (\<open>gen_next\<close> is \<^verbatim>\<open>next()\<close>,
  with \<open>None\<close> for \<^verbatim>\<open>StopIteration\<close>), \<^verbatim>\<open>EcuState.is_modifier_pkt\<close>,
  \<^verbatim>\<open>EcuState.get_modified_ecu_state\<close> and \<^verbatim>\<open>repr\<close> of a state.
\<close>

record ('s, 'g) protocol =
  get_negative_response_code :: "Packet \<Rightarrow> int"
  get_initial_requests :: "kwargs \<Rightarrow> 'g"
  gen_next :: "'g \<Rightarrow> (Packet \<times> 'g) option"
  is_modifier_pkt :: "Packet \<Rightarrow> bool"
  get_modified_ecu_state :: "Packet \<Rightarrow> Packet \<Rightarrow> 's \<Rightarrow> 's"
  repr_state :: "'s \<Rightarrow> string"

text \<open>
  The fields of a \<^verbatim>\<open>ServiceEnumerator\<close>. The ordered dictionaries
  (\<^verbatim>\<open>__result_packets\<close>, \<^verbatim>\<open>_state_completed\<close>) are association lists in insertion
  order; \<^verbatim>\<open>_request_iterators\<close> holds, for each state, the current position of its
  iterator object.
\<close>

record ('s, 'g) enumerator =
  result_packets :: "(bytes \<times> Packet) list"
  results :: "'s ScanResult list"
  request_iterators :: "'s \<rightharpoonup> 'g"
  retry_pkt :: "'s \<Rightarrow> retry_entry option"
  negative_response_blacklist :: "int list"
  state_completed :: "('s \<times> bool) list"

definition init_enumerator :: "('s, 'g) enumerator" where
  "init_enumerator = \<lparr>result_packets = [], results = [],
     request_iterators = Map.empty, retry_pkt = (\<lambda>_. None),
     negative_response_blacklist = [0x10, 0x11], state_completed = []\<rparr>"

section \<open>Result store\<close>

text \<open>\<^verbatim>\<open>d[k] = v\<close> guarded by \<^verbatim>\<open>k not in d\<close>: the first packet stored under a key stays.\<close>

definition intern :: "Packet \<Rightarrow> (bytes \<times> Packet) list \<Rightarrow> (bytes \<times> Packet) list" where
  "intern p tbl = (if raw p \<notin> fst ` set tbl then AList.update (raw p) p tbl else tbl)"

text \<open>
  The exceptions of the model: the three classes \<^verbatim>\<open>execute\<close> catches, the two
  the enumerator's own dictionary lookups and divisions can raise, and any other.
\<close>

datatype exn = OSError | ValueError | Scapy_Exception | KeyError | ZeroDivisionError
  | OtherException

text \<open>
  \<^verbatim>\<open>_store_result\<close>. \<^verbatim>\<open>d[k]\<close> on a dictionary raises \<^verbatim>\<open>KeyError\<close> for a missing key;
  \<^verbatim>\<open>req.sent_time or 0.0\<close> is \<open>0\<close> for \<^verbatim>\<open>None\<close> and the time stamp otherwise.
\<close>

definition store_result ::
  "('s, 'g, 'z) enumerator_scheme \<Rightarrow> 's \<Rightarrow> Packet \<Rightarrow> Packet option
     \<Rightarrow> exn + ('s, 'g, 'z) enumerator_scheme" where
  "store_result e st rq res =
     (let tbl1 = intern rq (result_packets e);
          tbl2 = (case res of None \<Rightarrow> tbl1 | Some r \<Rightarrow> intern r tbl1)
      in case map_of tbl2 (raw rq) of
           None \<Rightarrow> Inl KeyError
         | Some rq' \<Rightarrow>
             (case res of
                None \<Rightarrow>
                  Inr (e\<lparr>result_packets := tbl2,
                         results := results e @
                           [\<lparr>state = st, req = rq', resp = None,
                             req_ts = kwargs_pop (sent_time rq) 0, resp_ts = None\<rparr>]\<rparr>)
              | Some r \<Rightarrow>
                  (case map_of tbl2 (raw r) of
                     None \<Rightarrow> Inl KeyError
                   | Some r' \<Rightarrow>
                       Inr (e\<lparr>result_packets := tbl2,
                              results := results e @
                                [\<lparr>state = st, req = rq', resp = Some r',
                                  req_ts = kwargs_pop (sent_time rq) 0,
                                  resp_ts = Some (time r)\<rparr>]\<rparr>))))"


subsection \<open>Derived views\<close>

definition is_negative :: "Packet option \<Rightarrow> bool" where
  "is_negative r = (case r of None \<Rightarrow> False | Some p \<Rightarrow> service p = 0x7f)"

definition results_with_negative_response ::
  "('s, 'g, 'z) enumerator_scheme \<Rightarrow> 's ScanResult list" where
  "results_with_negative_response e = filter (\<lambda>r. is_negative (resp r)) (results e)"

section \<open>Request stream\<close>

text \<open>\<^verbatim>\<open>__get_retry_iterator\<close>.\<close>

definition get_retry_iterator :: "('s, 'g, 'z) enumerator_scheme \<Rightarrow> 's \<Rightarrow> Packet list" where
  "get_retry_iterator e st =
     (case retry_pkt e st of
        None \<Rightarrow> []
      | Some (RetryPacket p) \<Rightarrow> [p]
      | Some (RetryIterable ps) \<Rightarrow> ps)"

text \<open>
  \<^verbatim>\<open>__get_initial_request_iterator\<close>: the iterator is created and registered when the
  state has none; the registered iterator is what the call returns.
\<close>

definition get_initial_request_iterator ::
  "('s, 'g) protocol \<Rightarrow> ('s, 'g, 'z) enumerator_scheme \<Rightarrow> 's \<Rightarrow> kwargs
     \<Rightarrow> ('s, 'g, 'z) enumerator_scheme" where
  "get_initial_request_iterator P e st kw =
     (if st \<notin> dom (request_iterators e)
      then e\<lparr>request_iterators := (request_iterators e)(st \<mapsto> get_initial_requests P kw)\<rparr>
      else e)"

text \<open>
  \<^verbatim>\<open>__get_request_iterator\<close>: \<^verbatim>\<open>chain(retry, initial)\<close>. The chain object is the list
  of retry items it has not yielded yet, followed by the iterator registered for the
  state, which it shares with the registry.
\<close>

definition get_request_iterator ::
  "('s, 'g) protocol \<Rightarrow> ('s, 'g, 'z) enumerator_scheme \<Rightarrow> 's \<Rightarrow> kwargs
     \<Rightarrow> Packet list \<times> ('s, 'g, 'z) enumerator_scheme" where
  "get_request_iterator P e st kw =
     (let items = get_retry_iterator e st
      in (items, get_initial_request_iterator P e st kw))"

text \<open>
  \<^verbatim>\<open>next()\<close> on the chain: a retry item while there is one, then the next request of
  the state's registered iterator, which advances. \<open>None\<close> is \<^verbatim>\<open>StopIteration\<close>.
  (A chain is only built after the iterator was registered, so the registry has an entry.)
\<close>

definition chain_next ::
  "('s, 'g) protocol \<Rightarrow> 's \<Rightarrow> Packet list \<Rightarrow> ('s, 'g, 'z) enumerator_scheme
     \<Rightarrow> (Packet \<times> Packet list \<times> ('s, 'g, 'z) enumerator_scheme) option" where
  "chain_next P st items e =
     (case items of
        p # ps \<Rightarrow> Some (p, ps, e)
      | [] \<Rightarrow>
          (case request_iterators e st of
             None \<Rightarrow> None
           | Some g \<Rightarrow>
               (case gen_next P g of
                  None \<Rightarrow> None
                | Some (p, g') \<Rightarrow>
                    Some (p, [], e\<lparr>request_iterators := (request_iterators e)(st \<mapsto> g')\<rparr>))))"



section \<open>Response evaluation\<close>

definition set_completed ::
  "'s \<Rightarrow> ('s, 'g, 'z) enumerator_scheme \<Rightarrow> ('s, 'g, 'z) enumerator_scheme" where
  "set_completed st e = e\<lparr>state_completed := AList.update st True (state_completed e)\<rparr>"

definition set_retry ::
  "'s \<Rightarrow> retry_entry option \<Rightarrow> ('s, 'g, 'z) enumerator_scheme
     \<Rightarrow> ('s, 'g, 'z) enumerator_scheme" where
  "set_retry st v e = e\<lparr>retry_pkt := (retry_pkt e)(st := v)\<rparr>"

text \<open>\<^verbatim>\<open>_evaluate_response\<close>: the decision (\<open>True\<close> is stop) and the enumerator after it.\<close>

definition evaluate_response ::
  "('s, 'g) protocol \<Rightarrow> kwargs \<Rightarrow> ('s, 'g, 'z) enumerator_scheme \<Rightarrow> 's \<Rightarrow> Packet
     \<Rightarrow> Packet option \<Rightarrow> bool \<times> ('s, 'g, 'z) enumerator_scheme" where
  "evaluate_response P kw e st request response =
     (case response of
        None \<Rightarrow> (kwargs_pop (exit_if_no_answer_received kw) False, e)
      | Some r \<Rightarrow>
          (let exit_if_service_not_supported' = kwargs_pop (exit_if_service_not_supported kw) False;
               retry_if_busy_returncode' = kwargs_pop (retry_if_busy_returncode kw) True;
               exit_scan_on_first_negative_response' =
                 kwargs_pop (exit_scan_on_first_negative_response kw) False
           in if exit_scan_on_first_negative_response' \<and> service r = 0x7f then (True, e)
              else if exit_if_service_not_supported' \<and> service r = 0x7f
                      \<and> get_negative_response_code P r \<in> {0x11, 0x7f}
              then (True, set_completed st e)
              else if retry_if_busy_returncode' \<and> service r = 0x7f
                      \<and> get_negative_response_code P r = 0x21
              then (if retry_pkt e st = None
                    then (True, set_retry st (Some (RetryPacket request)) e)
                    else (False, set_retry st None e))
              else (let e' = set_retry st None e
                    in if is_modifier_pkt P r
                          \<and> st \<noteq> get_modified_ecu_state P r request st
                       then (True, e') else (False, e'))))"

section \<open>Execution loop\<close>

text \<open>
  The transport and the clock. \<open>sr1 w rq t\<close> is \<^verbatim>\<open>socket.sr1(rq, timeout=t)\<close> in the
  world \<open>w\<close>: it raises, or it returns the optional response together with the value
  of \<^verbatim>\<open>rq.sent_time\<close> it leaves on the request object. \<open>closed\<close> is
  \<^verbatim>\<open>socket.closed\<close>, \<open>time_time\<close> is \<^verbatim>\<open>time.time()\<close>.
\<close>

datatype exchange = Raises exn | Answers "rat option" "Packet option"

record 'w world =
  sr1 :: "'w \<Rightarrow> Packet \<Rightarrow> rat \<Rightarrow> exchange \<times> 'w"
  closed :: "'w \<Rightarrow> bool"
  time_time :: "'w \<Rightarrow> rat \<times> 'w"

text \<open>How a call of \<^verbatim>\<open>execute\<close> returned: at which \<^verbatim>\<open>return\<close>, or past the loop.\<close>

datatype exit = SocketClosed | StoppedByEvaluation | ExecutionTimeOver | IteratorFinished

definition caught :: "exn \<Rightarrow> bool" where
  "caught x = (x = OSError \<or> x = ValueError \<or> x = Scapy_Exception)"

text \<open>
  The \<^verbatim>\<open>for req in it\<close> loop of \<^verbatim>\<open>execute\<close> and what follows it. The first argument
  bounds the number of iterations; \<open>None\<close> is a loop still running after that many.
  A raised exception leaves \<^verbatim>\<open>execute\<close> as \<open>Inl\<close>.
\<close>

fun execute_loop ::
  "nat \<Rightarrow> ('s, 'g) protocol \<Rightarrow> 'w world \<Rightarrow> kwargs \<Rightarrow> rat \<Rightarrow> rat \<Rightarrow> rat \<Rightarrow> 's
     \<Rightarrow> Packet list \<Rightarrow> ('s, 'g, 'z) enumerator_scheme \<Rightarrow> 'w
     \<Rightarrow> ((exn + exit) \<times> ('s, 'g, 'z) enumerator_scheme \<times> 'w) option" where
  "execute_loop 0 P W kw tmo budget start_time st items e w = None"
| "execute_loop (Suc n) P W kw tmo budget start_time st items e w =
     (case chain_next P st items e of
        None \<Rightarrow> Some (Inr IteratorFinished, set_completed st e, w)
      | Some (rq, items', e1) \<Rightarrow>
          (case sr1 W w rq tmo of
             (Raises x, w1) \<Rightarrow>
               (if caught x
                then (if retry_pkt e1 st = None
                      then Some (Inl x, set_retry st (Some (RetryPacket rq)) e1, w1)
                      else Some (Inl x, e1, w1))
                else Some (Inl x, e1, w1))
           | (Answers ts res, w1) \<Rightarrow>
               (if closed W w1 then Some (Inr SocketClosed, e1, w1)
                else (let rq' = rq\<lparr>sent_time := ts\<rparr>
                      in case store_result e1 st rq' res of
                           Inl x \<Rightarrow> Some (Inl x, e1, w1)
                         | Inr e2 \<Rightarrow>
                             (case evaluate_response P kw e2 st rq' res of
                                (True, e3) \<Rightarrow> Some (Inr StoppedByEvaluation, e3, w1)
                              | (False, e3) \<Rightarrow>
                                  (case time_time W w1 of
                                     (now, w2) \<Rightarrow>
                                       if start_time + budget < now
                                       then Some (Inr ExecutionTimeOver, e3, w2)
                                       else execute_loop n P W kw tmo budget start_time st
                                              items' e3 w2))))))"

text \<open>\<^verbatim>\<open>execute\<close>.\<close>

definition execute ::
  "nat \<Rightarrow> ('s, 'g) protocol \<Rightarrow> 'w world \<Rightarrow> ('s, 'g, 'z) enumerator_scheme \<Rightarrow> 'w \<Rightarrow> 's
     \<Rightarrow> kwargs \<Rightarrow> ((exn + exit) \<times> ('s, 'g, 'z) enumerator_scheme \<times> 'w) option" where
  "execute fuel P W e w st kw =
     (let tmo = kwargs_pop (timeout kw) 1;
          budget = kwargs_pop (execution_time kw) 1200;
          kw' = kw\<lparr>timeout := None, execution_time := None\<rparr>;
          (items, e1) = get_request_iterator P e st kw';
          (start_time, w1) = time_time W w
      in execute_loop fuel P W kw' tmo budget start_time st items e1 w1)"

section \<open>Statistics\<close>

text \<open>\<^verbatim>\<open>str\<close> of a non-negative integer.\<close>

fun str_nat :: "nat \<Rightarrow> string" where
  "str_nat n =
     (if n < 10 then [''0123456789'' ! n]
      else str_nat (n div 10) @ [''0123456789'' ! (n mod 10)])"

text \<open>
  The three \<^verbatim>\<open>try\<close> blocks of \<^verbatim>\<open>_compute_statistics\<close>. \<^verbatim>\<open>max\<close> and \<^verbatim>\<open>min\<close> of an
  empty list raise \<^verbatim>\<open>ValueError\<close> and the division by \<^verbatim>\<open>len(times)\<close> raises
  \<^verbatim>\<open>ZeroDivisionError\<close>; each handler yields the string \<^verbatim>\<open>-\<close>. The parameter
  \<open>str_round\<close> is \<^verbatim>\<open>lambda x: str(round(x, 5))\<close>.
\<close>

definition stat_max :: "(rat \<Rightarrow> string) \<Rightarrow> rat list \<Rightarrow> string" where
  "stat_max str_round times' =
     (case times' of [] \<Rightarrow> ''-'' | t # ts \<Rightarrow> str_round (fold max ts t))"

definition stat_min :: "(rat \<Rightarrow> string) \<Rightarrow> rat list \<Rightarrow> string" where
  "stat_min str_round times' =
     (case times' of [] \<Rightarrow> ''-'' | t # ts \<Rightarrow> str_round (fold min ts t))"

definition stat_avg :: "(rat \<Rightarrow> string) \<Rightarrow> rat list \<Rightarrow> string" where
  "stat_avg str_round times' =
     (if length times' = 0 then ''-''
      else str_round (sum_list times' / of_nat (length times')))"

text \<open>
  The list comprehensions over \<^verbatim>\<open>answered\<close>. In a scan result \<^verbatim>\<open>req_ts\<close> is never
  \<^verbatim>\<open>None\<close> (its type is not optional), so only \<^verbatim>\<open>resp_ts\<close> is tested.
\<close>

definition answertimes_where ::
  "(Packet \<Rightarrow> bool) \<Rightarrow> 's ScanResult list \<Rightarrow> rat list" where
  "answertimes_where cond answered =
     map (\<lambda>x. the (resp_ts x) - req_ts x)
       (filter (\<lambda>x. (case resp x of None \<Rightarrow> False | Some p \<Rightarrow> resp_ts x \<noteq> None \<and> cond p))
          answered)"

text \<open>The body of the loop over the data sets.\<close>

definition data_set_statistics ::
  "(rat \<Rightarrow> string) \<Rightarrow> string \<Rightarrow> 's ScanResult list \<Rightarrow> (string \<times> string \<times> string) list" where
  "data_set_statistics str_round desc data =
     (let answered = filter (\<lambda>r. resp r \<noteq> None) data;
          unanswered = filter (\<lambda>r. resp r = None) data;
          answertimes = answertimes_where (\<lambda>p. True) answered;
          answertimes_nr = answertimes_where (\<lambda>p. service p = 0x7f) answered;
          answertimes_pr = answertimes_where (\<lambda>p. service p \<noteq> 0x7f) answered;
          nrs = map resp (filter (\<lambda>r. is_negative (resp r)) data)
      in [(desc, ''num_answered'', str_nat (length answered)),
          (desc, ''num_unanswered'', str_nat (length unanswered)),
          (desc, ''num_negative_resps'', str_nat (length nrs))]
         @ concat (map (\<lambda>(postfix, times').
                     [(desc, ''answertime_min'' @ postfix, stat_min str_round times'),
                      (desc, ''answertime_max'' @ postfix, stat_max str_round times'),
                      (desc, ''answertime_avg'' @ postfix, stat_avg str_round times')])
                   (zip [[], ''_nr'', ''_pr'']
                        [answertimes, answertimes_nr, answertimes_pr])))"

text \<open>\<^verbatim>\<open>_compute_statistics\<close>.\<close>

definition compute_statistics ::
  "(rat \<Rightarrow> string) \<Rightarrow> ('s, 'g) protocol \<Rightarrow> ('s, 'g, 'z) enumerator_scheme
     \<Rightarrow> (string \<times> string \<times> string) list" where
  "compute_statistics str_round P e =
     (let data_sets = (''all'', results e)
            # map (\<lambda>st. (repr_state P st, filter (\<lambda>r. state r = st) (results e)))
                (map fst (state_completed e))
      in concat (map (\<lambda>(desc, data). data_set_statistics str_round desc data) data_sets))"

section \<open>Adaptive blacklist\<close>

text \<open>\<^verbatim>\<open>nrc_dict[k] += 1\<close> on a \<^verbatim>\<open>defaultdict(int)\<close>.\<close>

definition dict_increment :: "int \<Rightarrow> (int \<times> nat) list \<Rightarrow> (int \<times> nat) list" where
  "dict_increment k d = AList.update k (kwargs_pop (map_of d k) 0 + 1) d"

text \<open>
  The first loop of \<^verbatim>\<open>_prepare_negative_response_blacklist\<close>; every result it runs
  over has a response.
\<close>

definition count_nrcs ::
  "('s, 'g) protocol \<Rightarrow> 's ScanResult list \<Rightarrow> (int \<times> nat) list" where
  "count_nrcs P nrs =
     fold (\<lambda>nr d. case resp nr of None \<Rightarrow> d
                  | Some p \<Rightarrow> dict_increment (get_negative_response_code P p) d) nrs []"

text \<open>
  The second loop, over \<^verbatim>\<open>nrc_dict.items()\<close>. \<^verbatim>\<open>/\<close> is the true division of
  Python 3, computed exactly; \<^verbatim>\<open>list.remove\<close> deletes the first occurrence.
\<close>

fun blacklist_loop :: "(int \<times> nat) list \<Rightarrow> nat \<Rightarrow> int list \<Rightarrow> exn + int list" where
  "blacklist_loop [] total_nr_count bl = Inr bl"
| "blacklist_loop ((nrc, nr_count) # items) total_nr_count bl =
     (if nrc \<notin> set bl \<and> nr_count > 30 \<and> total_nr_count = 0 then Inl ZeroDivisionError
      else (let bl1 = (if nrc \<notin> set bl \<and> nr_count > 30
                          \<and> (of_nat nr_count / of_nat total_nr_count :: rat) > 3 / 10
                       then bl @ [nrc] else bl);
                bl2 = (if nrc \<in> set bl1 \<and> nr_count < 10 then remove1 nrc bl1 else bl1)
            in blacklist_loop items total_nr_count bl2))"

text \<open>\<^verbatim>\<open>_prepare_negative_response_blacklist\<close>.\<close>

definition prepare_negative_response_blacklist ::
  "('s, 'g) protocol \<Rightarrow> ('s, 'g, 'z) enumerator_scheme
     \<Rightarrow> exn + ('s, 'g, 'z) enumerator_scheme" where
  "prepare_negative_response_blacklist P e =
     (let nrc_dict = count_nrcs P (results_with_negative_response e);
          total_nr_count = length (results_with_negative_response e)
      in case blacklist_loop nrc_dict total_nr_count (negative_response_blacklist e) of
           Inl x \<Rightarrow> Inl x
         | Inr bl \<Rightarrow> Inr (e\<lparr>negative_response_blacklist := bl\<rparr>))"

section \<open>Edge discovery\<close>

text \<open>A \<^verbatim>\<open>StateGeneratingServiceEnumerator\<close> adds the dictionary \<^verbatim>\<open>_edge_requests\<close>.\<close>

record ('s, 'g) state_generating_enumerator = "('s, 'g) enumerator" +
  edge_requests :: "('s \<times> 's) \<rightharpoonup> Packet"

text \<open>
  \<^verbatim>\<open>get_new_edge\<close>; \<^verbatim>\<open>results[-1]\<close> of an empty list raises the \<^verbatim>\<open>IndexError\<close> that
  is caught.
\<close>

definition get_new_edge ::
  "('s, 'g) protocol \<Rightarrow> ('s, 'g, 'z) state_generating_enumerator_scheme
     \<Rightarrow> ('s \<times> 's) option \<times> ('s, 'g, 'z) state_generating_enumerator_scheme" where
  "get_new_edge P e =
     (if results e = [] then (None, e)
      else (let r = last (results e)
            in case resp r of
                 None \<Rightarrow> (None, e)
               | Some rp \<Rightarrow>
                   (if is_modifier_pkt P rp
                    then (let new_state = get_modified_ecu_state P rp (req r) (state r)
                          in if new_state = state r then (None, e)
                             else (Some (state r, new_state),
                                   e\<lparr>edge_requests :=
                                       (edge_requests e)((state r, new_state) \<mapsto> req r)\<rparr>))
                    else (None, e))))"

section \<open>Conditions named by the specification\<close>

text \<open>
  The guards of the first three \<^verbatim>\<open>if\<close> statements of \<^verbatim>\<open>_evaluate_response\<close> on a
  received response: the two early exits and the busy-retry branch.
\<close>

definition exits_on_negative :: "kwargs \<Rightarrow> Packet \<Rightarrow> bool" where
  "exits_on_negative kw r =
     (kwargs_pop (exit_scan_on_first_negative_response kw) False \<and> service r = 0x7f)"

definition exits_on_not_supported :: "('s, 'g) protocol \<Rightarrow> kwargs \<Rightarrow> Packet \<Rightarrow> bool" where
  "exits_on_not_supported P kw r =
     (kwargs_pop (exit_if_service_not_supported kw) False \<and> service r = 0x7f
      \<and> (get_negative_response_code P r = 0x11 \<or> get_negative_response_code P r = 0x7f))"

definition enters_busy_retry :: "('s, 'g) protocol \<Rightarrow> kwargs \<Rightarrow> Packet \<Rightarrow> bool" where
  "enters_busy_retry P kw r =
     (kwargs_pop (retry_if_busy_returncode kw) True \<and> service r = 0x7f
      \<and> get_negative_response_code P r = 0x21)"

text \<open>
  A result whose response is classified as state-modifying and, applied with its request
  to the result's state, yields the different state \<open>new_state\<close>.
\<close>

definition state_changing :: "('s, 'g) protocol \<Rightarrow> 's ScanResult \<Rightarrow> 's \<Rightarrow> bool" where
  "state_changing P r new_state =
     (\<exists>rp. resp r = Some rp \<and> is_modifier_pkt P rp
        \<and> new_state = get_modified_ecu_state P rp (req r) (state r)
        \<and> new_state \<noteq> state r)"

section \<open>Sequences of stored results\<close>

text \<open>A scan stores one result after the other: \<^verbatim>\<open>_store_result\<close> called on each \<open>(state, req, res)\<close> in turn.\<close>

fun store_results ::
  "('s, 'g, 'z) enumerator_scheme \<Rightarrow> ('s \<times> Packet \<times> Packet option) list
     \<Rightarrow> exn + ('s, 'g, 'z) enumerator_scheme" where
  "store_results e [] = Inr e"
| "store_results e ((st, rq, res) # calls) =
     (case store_result e st rq res of
        Inl x \<Rightarrow> Inl x
      | Inr e' \<Rightarrow> store_results e' calls)"

text \<open>
  The packets a call hands to \<^verbatim>\<open>_store_result\<close>, in the order it interns them, and the
  first packet with the bytes \<open>b\<close> among those of a sequence of calls.
\<close>

definition packets_of_call :: "'s \<times> Packet \<times> Packet option \<Rightarrow> Packet list" where
  "packets_of_call c = (case c of (st, rq, res) \<Rightarrow> rq # (case res of None \<Rightarrow> [] | Some r \<Rightarrow> [r]))"

definition first_stored :: "('s \<times> Packet \<times> Packet option) list \<Rightarrow> bytes \<Rightarrow> Packet option" where
  "first_stored calls b = find (\<lambda>p. raw p = b) (concat (map packets_of_call calls))"

text \<open>
  The instance the table holds for the bytes of a packet, and the result
  \<^verbatim>\<open>_store_result\<close> appends for a call, read off a table.
\<close>

definition canonical :: "(bytes \<times> Packet) list \<Rightarrow> Packet \<Rightarrow> Packet" where
  "canonical tbl p = (case map_of tbl (raw p) of None \<Rightarrow> p | Some q \<Rightarrow> q)"

definition result_of_call ::
  "(bytes \<times> Packet) list \<Rightarrow> 's \<times> Packet \<times> Packet option \<Rightarrow> 's ScanResult" where
  "result_of_call tbl c = (case c of (st, rq, res) \<Rightarrow>
     \<lparr>state = st, req = canonical tbl rq, resp = map_option (canonical tbl) res,
      req_ts = kwargs_pop (sent_time rq) 0, resp_ts = map_option time res\<rparr>)"

section \<open>The population of negative responses\<close>

text \<open>
  The negative-response codes of all stored results whose response is negative, one per
  result, in the order of the results.
\<close>

definition negative_codes :: "('s, 'g) protocol \<Rightarrow> 's ScanResult list \<Rightarrow> int list" where
  "negative_codes P rs =
     concat (map (\<lambda>r. case resp r of
                         None \<Rightarrow> []
                       | Some p \<Rightarrow> if service p = 0x7f then [get_negative_response_code P p]
                                   else []) rs)"

text \<open>
  How often the code \<open>c\<close> is on the blacklist after the second loop has seen it with
  the count \<open>n\<close>, given the blacklist \<open>bl\<close> before the run.
\<close>

definition recomputed :: "nat \<Rightarrow> int list \<Rightarrow> int \<Rightarrow> nat \<Rightarrow> nat" where
  "recomputed tot bl c n =
     (if c \<in> set bl then (if n < 10 then count_list bl c - 1 else count_list bl c)
      else (if 30 < n \<and> (3 / 10 :: rat) < of_nat n / of_nat tot then 1 else 0))"

section \<open>Statistics as the specification states them\<close>

text \<open>
  The latencies of a population of responses within a data set: response time stamp
  minus request time stamp, over the results that have a response of the population and
  a response time stamp.
\<close>

definition latencies :: "(Packet \<Rightarrow> bool) \<Rightarrow> 's ScanResult list \<Rightarrow> rat list" where
  "latencies population data =
     concat (map (\<lambda>r. case resp r of
                         None \<Rightarrow> []
                       | Some p \<Rightarrow>
                           (case resp_ts r of
                              None \<Rightarrow> []
                            | Some t \<Rightarrow> if population p then [t - req_ts r] else [])) data)"

text \<open>The arithmetic mean, and a summary of a latency list that is \<^verbatim>\<open>-\<close> when the list is empty.\<close>

definition mean :: "rat list \<Rightarrow> rat" where
  "mean ts = sum_list ts / of_nat (length ts)"

definition report :: "(rat \<Rightarrow> string) \<Rightarrow> (rat list \<Rightarrow> rat) \<Rightarrow> rat list \<Rightarrow> string" where
  "report str_round summary ts = (if ts = [] then ''-'' else str_round (summary ts))"

text \<open>The three latency entries of a population, and the twelve entries of a data set.\<close>

definition latency_report ::
  "(rat \<Rightarrow> string) \<Rightarrow> string \<Rightarrow> string \<Rightarrow> rat list \<Rightarrow> (string \<times> string \<times> string) list" where
  "latency_report str_round desc postfix ts =
     [(desc, ''answertime_min'' @ postfix, report str_round (\<lambda>ts. Min (set ts)) ts),
      (desc, ''answertime_max'' @ postfix, report str_round (\<lambda>ts. Max (set ts)) ts),
      (desc, ''answertime_avg'' @ postfix, report str_round mean ts)]"

definition statistics_of ::
  "(rat \<Rightarrow> string) \<Rightarrow> string \<times> 's ScanResult list \<Rightarrow> (string \<times> string \<times> string) list" where
  "statistics_of str_round ds = (case ds of (desc, data) \<Rightarrow>
     [(desc, ''num_answered'', str_nat (length (filter (\<lambda>r. resp r \<noteq> None) data))),
      (desc, ''num_unanswered'', str_nat (length (filter (\<lambda>r. resp r = None) data))),
      (desc, ''num_negative_resps'', str_nat (length (filter (\<lambda>r. is_negative (resp r)) data)))]
     @ latency_report str_round desc [] (latencies (\<lambda>p. True) data)
     @ latency_report str_round desc ''_nr'' (latencies (\<lambda>p. service p = 0x7f) data)
     @ latency_report str_round desc ''_pr'' (latencies (\<lambda>p. service p \<noteq> 0x7f) data))"

text \<open>The data sets: all results, then the results of each tracked state.\<close>

definition data_sets ::
  "('s, 'g) protocol \<Rightarrow> ('s, 'g, 'z) enumerator_scheme \<Rightarrow> (string \<times> 's ScanResult list) list" where
  "data_sets P e =
     (''all'', results e)
     # map (\<lambda>st. (repr_state P st, filter (\<lambda>r. state r = st) (results e)))
         (map fst (state_completed e))"

section \<open>The iterator of a state\<close>


section \<open>Concrete instances\<close>

text \<open>
  A small protocol in the style of UDS, used to run the definitions on concrete inputs:
  states are session numbers, the service is the first byte of a packet, the
  negative-response code the third byte of a negative response, a positive response to
  service \<open>0x10\<close> (first byte \<open>0x50\<close>) moves the device to the session its second
  byte names, and the initial requests are a list.
\<close>

definition mk_packet :: "nat \<Rightarrow> bytes \<Rightarrow> Packet" where
  "mk_packet i b = \<lparr>ident = i, raw = b, service = (case b of [] \<Rightarrow> 0 | x # _ \<Rightarrow> uint x),
     sent_time = None, time = 0\<rparr>"

definition request_A :: Packet where "request_A = mk_packet 1 [0x10, 0x03]"
definition request_B :: Packet where "request_B = mk_packet 2 [0x11, 0x01]"
definition response_busy :: Packet where "response_busy = mk_packet 3 [0x7f, 0x10, 0x21]"
definition response_cond :: Packet where "response_cond = mk_packet 4 [0x7f, 0x10, 0x22]"
definition response_session :: Packet where "response_session = mk_packet 5 [0x50, 0x03]"

definition demo_protocol :: "(nat, Packet list) protocol" where
  "demo_protocol = \<lparr>get_negative_response_code = (\<lambda>p. case raw p of [s, r, c] \<Rightarrow> uint c | _ \<Rightarrow> 0),
     get_initial_requests = (\<lambda>kw. [request_A, request_B]),
     gen_next = (\<lambda>g. case g of [] \<Rightarrow> None | p # ps \<Rightarrow> Some (p, ps)),
     is_modifier_pkt = (\<lambda>p. service p = 0x50),
     get_modified_ecu_state = (\<lambda>rp rq st. case raw rp of [s, n] \<Rightarrow> unat n | _ \<Rightarrow> st),
     repr_state = str_nat\<rparr>"

text \<open>A new enumerator, the options that set \<^verbatim>\<open>exit_scan_on_first_negative_response\<close>,
  an enumerator with request B pending for state 0, and a new state-generating enumerator.\<close>

definition demo_enumerator :: "(nat, Packet list) enumerator" where
  "demo_enumerator = init_enumerator"

definition kwargs_exit_scan :: kwargs where
  "kwargs_exit_scan = no_kwargs\<lparr>exit_scan_on_first_negative_response := Some True\<rparr>"

definition demo_pending :: "(nat, Packet list) enumerator" where
  "demo_pending = demo_enumerator\<lparr>retry_pkt := (\<lambda>_. None)(0 := Some (RetryPacket request_B))\<rparr>"

definition demo_generating :: "(nat, Packet list) state_generating_enumerator" where
  "demo_generating = \<lparr>result_packets = [], results = [],
     request_iterators = Map.empty, retry_pkt = (\<lambda>_. None),
     negative_response_blacklist = [0x10, 0x11], state_completed = [],
     edge_requests = Map.empty\<rparr>"

text \<open>A result of state 0 sent at time 0.\<close>

definition demo_result :: "Packet \<Rightarrow> Packet option \<Rightarrow> nat ScanResult" where
  "demo_result rq rs = \<lparr>state = 0, req = rq, resp = rs, req_ts = 0, resp_ts = map_option time rs\<rparr>"

text \<open>A second packet object with the bytes of request A, and three calls of \<^verbatim>\<open>_store_result\<close>.\<close>

definition request_A_again :: Packet where "request_A_again = mk_packet 6 [0x10, 0x03]"

definition demo_calls :: "(nat \<times> Packet \<times> Packet option) list" where
  "demo_calls = [(0, request_A, Some response_busy), (0, request_A_again, Some response_busy),
     (0, request_B, None)]"

text \<open>
  Negative responses with the codes \<open>0x10\<close> and \<open>0x11\<close>, and an enumerator that has stored
  100 negative responses and 5 timeouts.
\<close>

definition response_reset :: Packet where "response_reset = mk_packet 7 [0x7f, 0x10, 0x10]"

definition response_unsupported :: Packet where
  "response_unsupported = mk_packet 8 [0x7f, 0x10, 0x11]"

definition demo_noisy :: "(nat, Packet list) enumerator" where
  "demo_noisy = demo_enumerator\<lparr>results :=
     replicate 40 (demo_result request_A (Some response_cond))
     @ replicate 9 (demo_result request_A (Some response_reset))
     @ replicate 51 (demo_result request_A (Some response_unsupported))
     @ replicate 5 (demo_result request_A None)\<rparr>"

text \<open>
  A rendering of a non-negative number with one decimal digit, results of a state with
  given time stamps, and an enumerator with five results and two tracked states.
\<close>

definition demo_str_round :: "rat \<Rightarrow> string" where
  "demo_str_round x = str_nat (nat \<lfloor>x\<rfloor>) @ ''.'' @ str_nat (nat \<lfloor>x * 10\<rfloor> mod 10)"

definition timed_result :: "nat \<Rightarrow> Packet option \<Rightarrow> rat \<Rightarrow> rat \<Rightarrow> nat ScanResult" where
  "timed_result st rs t0 t1 =
     \<lparr>state = st, req = request_A, resp = rs, req_ts = t0,
      resp_ts = (case rs of None \<Rightarrow> None | Some _ \<Rightarrow> Some t1)\<rparr>"

definition demo_timed :: "(nat, Packet list) enumerator" where
  "demo_timed = demo_enumerator\<lparr>results :=
       [timed_result 1 (Some response_cond) 10 11, timed_result 1 (Some response_session) 20 22,
        timed_result 1 None 30 0, timed_result 1 (Some response_cond) 40 43,
        timed_result 2 None 50 0],
     state_completed := [(1, True), (3, False)]\<rparr>"


text \<open>
  Worlds that count the exchanges made so far: the exchange number decides what
  \<^verbatim>\<open>sr1\<close> does and whether the socket is closed, and is the time. One answers the first
  request and then raises, one answers and is closed from then on, one answers every
  request with the same response.
\<close>

definition scripted_world :: "(nat \<Rightarrow> exchange) \<Rightarrow> (nat \<Rightarrow> bool) \<Rightarrow> nat world" where
  "scripted_world script closed_at =
     \<lparr>sr1 = (\<lambda>w rq t. (script w, Suc w)), closed = closed_at,
      time_time = (\<lambda>w. (of_nat w, w))\<rparr>"

definition world_failing :: "nat world" where
  "world_failing = scripted_world
     (\<lambda>w. if w = 0 then Answers (Some 0) (Some response_cond)
          else if w = 1 then Raises OSError else Raises ValueError)
     (\<lambda>w. False)"

definition world_closing :: "nat world" where
  "world_closing = scripted_world (\<lambda>w. Answers (Some 0) (Some response_session)) (\<lambda>w. 1 \<le> w)"

definition world_answering :: "Packet \<Rightarrow> nat world" where
  "world_answering r = scripted_world (\<lambda>w. Answers (Some 0) (Some r)) (\<lambda>w. False)"


definition outcome ::
  "((exn + exit) \<times> (nat, Packet list) enumerator \<times> nat) option
     \<Rightarrow> ((exn + exit) \<times> retry_entry option \<times> (bytes \<times> bytes option) list
          \<times> (nat \<times> bool) list \<times> nat) option" where
  "outcome r = map_option (\<lambda>(out, e', w').
     (out, retry_pkt e' 0, map (\<lambda>r. (raw (req r), map_option raw (resp r))) (results e'),
      state_completed e', w')) r"

text \<open>The enumerator after a call of \<^verbatim>\<open>execute\<close> for state 0 on a device that is always busy.\<close>

definition demo_after_busy :: "(nat, Packet list) enumerator" where
  "demo_after_busy =
     (case execute (Suc (Suc (Suc 0))) demo_protocol (world_answering response_busy)
             demo_enumerator 0 0 no_kwargs of
        None \<Rightarrow> demo_enumerator
      | Some (out, e, w) \<Rightarrow> e)"

lemmas demo_defs = mk_packet_def demo_protocol_def demo_enumerator_def init_enumerator_def
  request_A_def request_B_def response_busy_def response_cond_def response_session_def
  no_kwargs_def kwargs_pop_def

lemmas run_defs = execute_def get_request_iterator_def get_retry_iterator_def
  get_initial_request_iterator_def chain_next_def store_result_def intern_def
  evaluate_response_def set_retry_def set_completed_def scripted_world_def outcome_def
  caught_def Let_def

section \<open>Response evaluation: the busy code\<close>

text \<open>
  C1, as the code has it. When \<^verbatim>\<open>retry_if_busy_returncode\<close> is set (or absent, its
  default), \<^verbatim>\<open>exit_scan_on_first_negative_response\<close> is not set, and the response is
  negative (service \<open>0x7f\<close>) with negative-response code \<open>0x21\<close>: with no retry pending
  for the state, the request becomes the state's retry entry and the decision is stop;
  with a retry pending, the entry is cleared and the decision is continue. No other
  field and no other state's entry changes. The option
  \<^verbatim>\<open>exit_scan_on_first_negative_response\<close> is tested first and wins.
\<close>

theorem busy_retry:
  assumes "kwargs_pop (retry_if_busy_returncode kw) True"
      and "\<not> kwargs_pop (exit_scan_on_first_negative_response kw) False"
      and "service r = 0x7f"
      and "get_negative_response_code P r = 0x21"
  shows "evaluate_response P kw e st rq (Some r) =
           (if retry_pkt e st = None
            then (True, e\<lparr>retry_pkt := (retry_pkt e)(st := Some (RetryPacket rq))\<rparr>)
            else (False, e\<lparr>retry_pkt := (retry_pkt e)(st := None)\<rparr>))"
  using assms by (simp add: evaluate_response_def set_retry_def)

text \<open>
  Under the default options, a request answered busy twice in a row: the first
  evaluation stops with the request as retry entry, the second continues with the
  entry cleared.
\<close>

theorem busy_retry_witness:
  "kwargs_pop (retry_if_busy_returncode no_kwargs) True
   \<and> \<not> kwargs_pop (exit_scan_on_first_negative_response no_kwargs) False
   \<and> service response_busy = 0x7f
   \<and> get_negative_response_code demo_protocol response_busy = 0x21
   \<and> retry_pkt demo_enumerator 0 = None
   \<and> fst (evaluate_response demo_protocol no_kwargs demo_enumerator 0 request_A
             (Some response_busy))
   \<and> retry_pkt (snd (evaluate_response demo_protocol no_kwargs demo_enumerator 0 request_A
                       (Some response_busy))) 0 = Some (RetryPacket request_A)
   \<and> \<not> fst (evaluate_response demo_protocol no_kwargs
               (snd (evaluate_response demo_protocol no_kwargs demo_enumerator 0 request_A
                       (Some response_busy))) 0 request_A (Some response_busy))
   \<and> retry_pkt (snd (evaluate_response demo_protocol no_kwargs
               (snd (evaluate_response demo_protocol no_kwargs demo_enumerator 0 request_A
                       (Some response_busy))) 0 request_A (Some response_busy))) 0 = None"
proof -
  have h: "kwargs_pop (retry_if_busy_returncode no_kwargs) True"
    "\<not> kwargs_pop (exit_scan_on_first_negative_response no_kwargs) False"
    "service response_busy = 0x7f"
    "get_negative_response_code demo_protocol response_busy = 0x21"
    by (simp_all add: demo_defs)
  have n: "retry_pkt demo_enumerator 0 = None" by (simp add: demo_defs)
  note first = busy_retry [OF h, of demo_enumerator 0 request_A]
  note second = busy_retry [OF h,
      of "demo_enumerator\<lparr>retry_pkt :=
            (retry_pkt demo_enumerator)(0 := Some (RetryPacket request_A))\<rparr>" 0 request_A]
  show ?thesis using h n by (simp add: first second)
qed

text \<open>
  C1 as stated fails: with \<^verbatim>\<open>exit_scan_on_first_negative_response\<close> set,
  \<^verbatim>\<open>retry_if_busy_returncode\<close> at its default and no retry pending, a busy response
  leaves the retry entry empty.
\<close>

theorem busy_retry_counterexample:
  "kwargs_pop (retry_if_busy_returncode kwargs_exit_scan) True
   \<and> service response_busy = 0x7f
   \<and> get_negative_response_code demo_protocol response_busy = 0x21
   \<and> retry_pkt demo_enumerator 0 = None
   \<and> retry_pkt (snd (evaluate_response demo_protocol kwargs_exit_scan demo_enumerator 0
                       request_A (Some response_busy))) 0 = None"
  by (simp add: evaluate_response_def demo_defs kwargs_exit_scan_def)

section \<open>Response evaluation: the retry slot outside the busy case\<close>

text \<open>
  C10, as the code has it. Without a response the evaluation changes nothing, so a
  pending retry stays. With a response that takes neither early exit
  (\<^verbatim>\<open>exit_scan_on_first_negative_response\<close> on a negative response,
  \<^verbatim>\<open>exit_if_service_not_supported\<close> on code \<open>0x11\<close> or \<open>0x7f\<close>) and does not enter
  the busy-retry branch, the state's retry entry is cleared, whatever it held, and the
  decision is stop exactly when the response is state-modifying and yields a different
  state.
\<close>

theorem evaluate_response_retry_slot:
  "evaluate_response P kw e st rq None = (kwargs_pop (exit_if_no_answer_received kw) False, e)
   \<and> (\<not> exits_on_negative kw r \<and> \<not> exits_on_not_supported P kw r
        \<and> \<not> enters_busy_retry P kw r \<longrightarrow>
      evaluate_response P kw e st rq (Some r) =
        (is_modifier_pkt P r \<and> st \<noteq> get_modified_ecu_state P r rq st,
         e\<lparr>retry_pkt := (retry_pkt e)(st := None)\<rparr>))"
  by (auto simp add: evaluate_response_def set_retry_def exits_on_negative_def
      exits_on_not_supported_def enters_busy_retry_def Let_def)


text \<open>
  A retry pending for another request survives a timeout and is cleared by a positive
  response.
\<close>

theorem evaluate_response_retry_slot_witness:
  "\<not> exits_on_negative no_kwargs response_session
   \<and> \<not> exits_on_not_supported demo_protocol no_kwargs response_session
   \<and> \<not> enters_busy_retry demo_protocol no_kwargs response_session
   \<and> retry_pkt demo_pending 0 = Some (RetryPacket request_B)
   \<and> retry_pkt (snd (evaluate_response demo_protocol no_kwargs demo_pending 0 request_A None)) 0
       = Some (RetryPacket request_B)
   \<and> retry_pkt (snd (evaluate_response demo_protocol no_kwargs demo_pending 0 request_A
                       (Some response_session))) 0 = None
   \<and> fst (evaluate_response demo_protocol no_kwargs demo_pending 0 request_A
             (Some response_session))"
proof -
  have h: "\<not> exits_on_negative no_kwargs response_session"
    "\<not> exits_on_not_supported demo_protocol no_kwargs response_session"
    "\<not> enters_busy_retry demo_protocol no_kwargs response_session"
    by (simp_all add: exits_on_negative_def exits_on_not_supported_def enters_busy_retry_def
        demo_defs demo_pending_def)
  have p: "retry_pkt demo_pending 0 = Some (RetryPacket request_B)"
    by (simp add: demo_pending_def)
  have m: "is_modifier_pkt demo_protocol response_session"
    "get_modified_ecu_state demo_protocol response_session request_A 0 = 3"
    by (simp_all add: demo_defs demo_pending_def)
  show ?thesis
    using h p m
      evaluate_response_retry_slot [of demo_protocol no_kwargs demo_pending 0 request_A
        response_session]
    by simp
qed


text \<open>
  C10 as stated fails: with \<^verbatim>\<open>exit_scan_on_first_negative_response\<close> set, a negative
  response with code \<open>0x22\<close> does not enter the busy-retry branch and the pending retry
  is still there after the evaluation.
\<close>

theorem evaluate_response_retry_slot_counterexample:
  "get_negative_response_code demo_protocol response_cond \<noteq> 0x21
   \<and> retry_pkt demo_pending 0 = Some (RetryPacket request_B)
   \<and> retry_pkt (snd (evaluate_response demo_protocol kwargs_exit_scan demo_pending 0
                       request_A (Some response_cond))) 0 = Some (RetryPacket request_B)"
  by (simp add: evaluate_response_def demo_pending_def kwargs_exit_scan_def demo_defs)

section \<open>Edge discovery: the returned edge\<close>

text \<open>
  C6. \<^verbatim>\<open>get_new_edge\<close> returns the edge \<open>(a, b)\<close> exactly when there is a result, \<open>a\<close> is
  the state of the last one, and its response is state-modifying and yields the
  different state \<open>b\<close>; it then records the last result's request under that edge. When
  it returns nothing, it records nothing.
\<close>

theorem get_new_edge_correct:
  "(fst (get_new_edge P e) = Some (a, b) \<longleftrightarrow>
      results e \<noteq> [] \<and> a = state (last (results e)) \<and> state_changing P (last (results e)) b)
   \<and> (fst (get_new_edge P e) = Some (a, b) \<longrightarrow>
        snd (get_new_edge P e) =
          e\<lparr>edge_requests := (edge_requests e)((a, b) \<mapsto> req (last (results e)))\<rparr>)
   \<and> (fst (get_new_edge P e) = None \<longrightarrow> snd (get_new_edge P e) = e)"
  by (auto simp add: get_new_edge_def state_changing_def Let_def split: option.splits)


text \<open>An edge from session 0 to session 3, and no edge from an empty store.\<close>

theorem get_new_edge_correct_witness:
  "fst (get_new_edge demo_protocol
         (demo_generating\<lparr>results := [demo_result request_A (Some response_session)]\<rparr>))
     = Some (0, 3)
   \<and> edge_requests (snd (get_new_edge demo_protocol
         (demo_generating\<lparr>results := [demo_result request_A (Some response_session)]\<rparr>))) (0, 3)
     = Some request_A
   \<and> fst (get_new_edge demo_protocol demo_generating) = None
   \<and> edge_requests (snd (get_new_edge demo_protocol demo_generating)) = Map.empty"
proof -
  let ?e = "demo_generating\<lparr>results := [demo_result request_A (Some response_session)]\<rparr>"
  have c: "results ?e \<noteq> [] \<and> 0 = state (last (results ?e))
      \<and> state_changing demo_protocol (last (results ?e)) 3"
    by (simp add: state_changing_def demo_result_def demo_generating_def demo_defs)
  have r: "req (last (results ?e)) = request_A"
    by (simp add: demo_result_def)
  have n: "results demo_generating = []" "edge_requests demo_generating = Map.empty"
    by (simp_all add: demo_generating_def)
  have 1: "fst (get_new_edge demo_protocol ?e) = Some (0, 3)"
    using get_new_edge_correct [of demo_protocol ?e 0 3] c by blast
  have 2: "fst (get_new_edge demo_protocol demo_generating) = None"
  proof (cases "fst (get_new_edge demo_protocol demo_generating)")
    case None then show ?thesis .
  next
    case (Some ab)
    then show ?thesis
      using get_new_edge_correct [of demo_protocol demo_generating "fst ab" "snd ab"] n by simp
  qed
  show ?thesis
    using 1 2 r n get_new_edge_correct [of demo_protocol ?e 0 3]
      get_new_edge_correct [of demo_protocol demo_generating 0 3]
    by simp
qed

section \<open>Result store: interning\<close>

lemma map_of_intern:
  "map_of (intern p tbl) b =
     (case map_of tbl b of Some q \<Rightarrow> Some q | None \<Rightarrow> if raw p = b then Some p else None)"
  by (simp add: intern_def update_conv' map_of_eq_None_iff [symmetric] split: option.splits)

lemma find_append_case:
  "find P (xs @ ys) = (case find P xs of None \<Rightarrow> find P ys | Some x \<Rightarrow> Some x)"
  by (induction xs) simp_all

lemma store_result_Inr:
  "\<exists>e'. store_result e st rq res = Inr e'
     \<and> (\<forall>b. map_of (result_packets e') b =
           (case map_of (result_packets e) b of
              Some q \<Rightarrow> Some q
            | None \<Rightarrow> find (\<lambda>p. raw p = b) (packets_of_call (st, rq, res))))
     \<and> results e' = results e @
          [\<lparr>state = st, req = canonical (result_packets e') rq,
            resp = map_option (canonical (result_packets e')) res,
            req_ts = kwargs_pop (sent_time rq) 0, resp_ts = map_option time res\<rparr>]"
  by (cases res)
     (auto simp add: store_result_def Let_def map_of_intern packets_of_call_def canonical_def
       split: option.splits)

lemma canonical_persists:
  assumes "\<forall>b q. map_of tbl b = Some q \<longrightarrow> map_of tbl' b = Some q"
      and "map_of tbl (raw p) \<noteq> None"
  shows "canonical tbl' p = canonical tbl p"
  using assms by (auto simp add: canonical_def split: option.splits)

lemma store_results_Inr:
  "\<exists>e'. store_results e calls = Inr e'
     \<and> (\<forall>b. map_of (result_packets e') b =
           (case map_of (result_packets e) b of
              Some q \<Rightarrow> Some q
            | None \<Rightarrow> first_stored calls b))
     \<and> results e' = results e @ map (result_of_call (result_packets e')) calls"
proof (induction calls arbitrary: e)
  case Nil
  show ?case by (simp add: first_stored_def split: option.splits)
next
  case (Cons c calls)
  obtain st rq res where c: "c = (st, rq, res)" by (cases c)
  obtain e1 where e1: "store_result e st rq res = Inr e1"
    and t1: "\<And>b. map_of (result_packets e1) b =
           (case map_of (result_packets e) b of
              Some q \<Rightarrow> Some q
            | None \<Rightarrow> find (\<lambda>p. raw p = b) (packets_of_call (st, rq, res)))"
    and r1: "results e1 = results e @ [result_of_call (result_packets e1) (st, rq, res)]"
    using store_result_Inr [of e st rq res] by (auto simp add: result_of_call_def)
  obtain e2 where e2: "store_results e1 calls = Inr e2"
    and t2: "\<And>b. map_of (result_packets e2) b =
           (case map_of (result_packets e1) b of
              Some q \<Rightarrow> Some q
            | None \<Rightarrow> first_stored calls b)"
    and r2: "results e2 = results e1 @ map (result_of_call (result_packets e2)) calls"
    using Cons.IH [of e1] by auto
  have mono: "\<forall>b q. map_of (result_packets e1) b = Some q \<longrightarrow> map_of (result_packets e2) b = Some q"
    by (simp add: t2)
  have rq_in: "map_of (result_packets e1) (raw rq) \<noteq> None"
    by (simp add: t1 packets_of_call_def split: option.splits)
  have res_in: "\<And>r. res = Some r \<Longrightarrow> map_of (result_packets e1) (raw r) \<noteq> None"
    by (auto simp add: t1 packets_of_call_def split: option.splits)
  have same: "result_of_call (result_packets e2) (st, rq, res)
      = result_of_call (result_packets e1) (st, rq, res)"
    using canonical_persists [OF mono rq_in] canonical_persists [OF mono res_in]
    by (cases res) (simp_all add: result_of_call_def)
  have tbl: "\<And>b. map_of (result_packets e2) b =
           (case map_of (result_packets e) b of
              Some q \<Rightarrow> Some q
            | None \<Rightarrow> first_stored (c # calls) b)"
    by (simp add: t2 t1 c first_stored_def find_append_case split: option.splits)
  show ?case
    using e1 e2 tbl r1 r2 same by (simp add: c)
qed

lemma first_stored_member:
  assumes "c \<in> set calls" and "p \<in> set (packets_of_call c)"
  shows "\<exists>q. first_stored calls (raw p) = Some q \<and> raw q = raw p"
proof (cases "first_stored calls (raw p)")
  case None
  then show ?thesis
    using assms by (auto simp add: first_stored_def find_None_iff)
next
  case (Some q)
  then show ?thesis
    by (auto simp add: first_stored_def find_Some_iff)
qed

lemma canonical_first_stored:
  assumes tbl: "\<And>b. map_of tbl b = first_stored calls b"
      and "c \<in> set calls" and "p \<in> set (packets_of_call c)"
  shows "first_stored calls (raw (canonical tbl p)) = Some (canonical tbl p)"
  using first_stored_member [OF assms(2,3)] by (auto simp add: canonical_def tbl)

text \<open>
  C7. Any sequence of \<^verbatim>\<open>_store_result\<close> calls runs without an exception, and every
  entry of the interned-packet table before it is the same entry after it. Started
  from an empty store: two results whose requests have equal bytes hold the same
  request instance, two results whose responses have equal bytes hold the same response
  instance, and the instance a result holds is the first packet with those bytes that
  was stored.
\<close>

theorem store_result_interning:
  "\<exists>e'. store_results e calls = Inr e'
     \<and> (\<forall>b p. map_of (result_packets e) b = Some p \<longrightarrow> map_of (result_packets e') b = Some p)
     \<and> (result_packets e = [] \<and> results e = [] \<longrightarrow>
          (\<forall>r1 \<in> set (results e'). \<forall>r2 \<in> set (results e').
             (raw (req r1) = raw (req r2) \<longrightarrow> req r1 = req r2)
           \<and> (\<forall>p1 p2. resp r1 = Some p1 \<and> resp r2 = Some p2 \<and> raw p1 = raw p2 \<longrightarrow> p1 = p2))
        \<and> (\<forall>r \<in> set (results e').
             first_stored calls (raw (req r)) = Some (req r)
           \<and> (\<forall>p. resp r = Some p \<longrightarrow> first_stored calls (raw p) = Some p)))"
proof -
  obtain e' where run: "store_results e calls = Inr e'"
    and tbl: "\<And>b. map_of (result_packets e') b =
           (case map_of (result_packets e) b of
              Some q \<Rightarrow> Some q
            | None \<Rightarrow> first_stored calls b)"
    and res: "results e' = results e @ map (result_of_call (result_packets e')) calls"
    using store_results_Inr [of e calls] by auto
  have mono: "\<forall>b p. map_of (result_packets e) b = Some p
      \<longrightarrow> map_of (result_packets e') b = Some p"
    by (simp add: tbl)
  have fresh: "(\<forall>r1 \<in> set (results e'). \<forall>r2 \<in> set (results e').
             (raw (req r1) = raw (req r2) \<longrightarrow> req r1 = req r2)
           \<and> (\<forall>p1 p2. resp r1 = Some p1 \<and> resp r2 = Some p2 \<and> raw p1 = raw p2 \<longrightarrow> p1 = p2))
        \<and> (\<forall>r \<in> set (results e').
             first_stored calls (raw (req r)) = Some (req r)
           \<and> (\<forall>p. resp r = Some p \<longrightarrow> first_stored calls (raw p) = Some p))"
    if empty: "result_packets e = []" "results e = []"
  proof -
    have tbl': "\<And>b. map_of (result_packets e') b = first_stored calls b"
      by (simp add: tbl empty)
    have first: "first_stored calls (raw (req r)) = Some (req r)
        \<and> (\<forall>p. resp r = Some p \<longrightarrow> first_stored calls (raw p) = Some p)"
      if rin: "r \<in> set (results e')" for r
    proof -
      obtain c where cin: "c \<in> set calls"
        and rc: "r = result_of_call (result_packets e') c"
        using rin by (auto simp add: res empty)
      obtain st rq rs where ceq: "c = (st, rq, rs)"
        by (cases c)
      have c: "(st, rq, rs) \<in> set calls"
        using cin ceq by simp
      have r: "r = result_of_call (result_packets e') (st, rq, rs)"
        using rc ceq by simp
      have "first_stored calls (raw (canonical (result_packets e') rq))
          = Some (canonical (result_packets e') rq)"
        using canonical_first_stored [OF tbl' c, of rq] by (simp add: packets_of_call_def)
      moreover have "first_stored calls (raw (canonical (result_packets e') p))
          = Some (canonical (result_packets e') p)" if rs: "rs = Some p" for p
        using canonical_first_stored [OF tbl' c, of p] rs by (simp add: packets_of_call_def)
      ultimately show ?thesis
        by (auto simp add: r result_of_call_def)
    qed
    have "req r1 = req r2"
      if "r1 \<in> set (results e')" "r2 \<in> set (results e')" "raw (req r1) = raw (req r2)"
      for r1 r2
    proof -
      have "Some (req r1) = first_stored calls (raw (req r1))"
        using first [OF that(1)] by simp
      also have "\<dots> = first_stored calls (raw (req r2))"
        by (simp only: that(3))
      also have "\<dots> = Some (req r2)"
        using first [OF that(2)] by simp
      finally show ?thesis by simp
    qed
    moreover have "p1 = p2"
      if "r1 \<in> set (results e')" "r2 \<in> set (results e')" "resp r1 = Some p1"
        "resp r2 = Some p2" "raw p1 = raw p2"
      for r1 r2 p1 p2
    proof -
      have "Some p1 = first_stored calls (raw p1)"
        using first [OF that(1)] that(3) by simp
      also have "\<dots> = first_stored calls (raw p2)"
        by (simp only: that(5))
      also have "\<dots> = Some p2"
        using first [OF that(2)] that(4) by simp
      finally show ?thesis by simp
    qed
    ultimately show ?thesis
      using first by blast
  qed
  show ?thesis
    using run mono fresh by blast
qed

text \<open>
  Request A is stored twice, the second time as a separate object with the same bytes:
  both results hold the first object, and the table has one entry for it.
\<close>

theorem store_result_interning_witness:
  "result_packets demo_enumerator = [] \<and> results demo_enumerator = []
   \<and> (\<exists>e'. store_results demo_enumerator demo_calls = Inr e'
         \<and> map req (results e') = [request_A, request_A, request_B]
         \<and> map resp (results e') = [Some response_busy, Some response_busy, None]
         \<and> map fst (result_packets e') = [raw request_A, raw response_busy, raw request_B])
   \<and> raw request_A_again = raw request_A \<and> request_A_again \<noteq> request_A"
proof -
  have empty: "result_packets demo_enumerator = []" "results demo_enumerator = []"
    by (simp_all add: demo_defs demo_result_def)
  obtain e' where run: "store_results demo_enumerator demo_calls = Inr e'"
    using store_result_interning [of demo_enumerator demo_calls] by blast
  have "store_results demo_enumerator demo_calls = Inr
      (demo_enumerator\<lparr>result_packets := [(raw request_A, request_A),
            (raw response_busy, response_busy), (raw request_B, request_B)],
          results := [demo_result request_A (Some response_busy),
            demo_result request_A (Some response_busy), demo_result request_B None]\<rparr>)"
    by (simp add: demo_calls_def request_A_again_def store_result_def intern_def demo_defs demo_result_def)
  then show ?thesis
    using run empty by (auto simp add: request_A_again_def demo_defs demo_result_def)
qed

section \<open>Adaptive blacklist: the recomputation\<close>

lemma dict_increment_keys:
  "fst ` set (dict_increment k d) = insert k (fst ` set d)"
  by (simp add: dict_increment_def dom_update)

lemma dict_increment_distinct:
  "distinct (map fst d) \<Longrightarrow> distinct (map fst (dict_increment k d))"
  by (simp add: dict_increment_def distinct_update)

lemma dict_increment_value:
  "kwargs_pop (map_of (dict_increment k d) c) 0 =
     kwargs_pop (map_of d c) 0 + (if k = c then 1 else 0)"
  by (simp add: dict_increment_def update_conv' kwargs_pop_def)

lemma fold_dict_increment:
  assumes "distinct (map fst d)"
  shows "distinct (map fst (fold dict_increment cs d))
     \<and> fst ` set (fold dict_increment cs d) = set cs \<union> fst ` set d
     \<and> (\<forall>c. kwargs_pop (map_of (fold dict_increment cs d) c) 0 =
              kwargs_pop (map_of d c) 0 + count_list cs c)"
  using assms
proof (induction cs arbitrary: d)
  case Nil
  then show ?case by simp
next
  case (Cons k cs)
  have "distinct (map fst (dict_increment k d))"
    using Cons.prems by (rule dict_increment_distinct)
  from Cons.IH [OF this] show ?case
    by (auto simp add: dict_increment_keys dict_increment_value)
qed

lemma count_nrcs_fold:
  "count_nrcs P (filter (\<lambda>r. is_negative (resp r)) rs) =
     fold dict_increment (negative_codes P rs) []"
proof -
  have "fold (\<lambda>nr d. case resp nr of None \<Rightarrow> d
                  | Some p \<Rightarrow> dict_increment (get_negative_response_code P p) d)
          (filter (\<lambda>r. is_negative (resp r)) rs) d
      = fold dict_increment (negative_codes P rs) d" for d
    by (induction rs arbitrary: d)
       (auto simp add: negative_codes_def is_negative_def split: option.splits)
  then show ?thesis by (simp add: count_nrcs_def)
qed

lemma length_negative_codes:
  "length (filter (\<lambda>r. is_negative (resp r)) rs) = length (negative_codes P rs)"
  by (induction rs) (auto simp add: negative_codes_def is_negative_def split: option.splits)

lemma count_list_remove1:
  "count_list (remove1 x xs) c =
     (if x = c \<and> c \<in> set xs then count_list xs c - 1 else count_list xs c)"
  by (induction xs) auto

lemma blacklist_loop_Inr:
  assumes "distinct (map fst items)"
      and "\<forall>(c, n) \<in> set items. 30 < n \<longrightarrow> 0 < tot"
  shows "\<exists>bl'. blacklist_loop items tot bl = Inr bl'
     \<and> (\<forall>c. count_list bl' c =
            (case map_of items c of
               None \<Rightarrow> count_list bl c
             | Some n \<Rightarrow> recomputed tot bl c n))"
  using assms
proof (induction items arbitrary: bl)
  case Nil
  then show ?case by simp
next
  case (Cons item items)
  obtain k n where item: "item = (k, n)" by (cases item)
  define bl1 where "bl1 = (if k \<notin> set bl \<and> n > 30
                          \<and> (of_nat n / of_nat tot :: rat) > 3 / 10
                       then bl @ [k] else bl)"
  define bl2 where "bl2 = (if k \<in> set bl1 \<and> n < 10 then remove1 k bl1 else bl1)"
  have fresh: "map_of items k = None"
    using Cons.prems(1) by (simp add: item map_of_eq_None_iff)
  have dist: "distinct (map fst items)" and pos: "\<forall>(c, n) \<in> set items. 30 < n \<longrightarrow> 0 < tot"
    using Cons.prems by simp_all
  have nz: "\<not> (k \<notin> set bl \<and> n > 30 \<and> tot = 0)"
    using Cons.prems(2) by (auto simp add: item)
  have step: "blacklist_loop (item # items) tot bl = blacklist_loop items tot bl2"
    unfolding item bl2_def bl1_def by (simp only: blacklist_loop.simps nz if_False Let_def)
  obtain bl' where run: "blacklist_loop items tot bl2 = Inr bl'"
    and cnt: "\<And>c. count_list bl' c =
            (case map_of items c of
               None \<Rightarrow> count_list bl2 c
             | Some n \<Rightarrow> recomputed tot bl2 c n)"
    using Cons.IH [OF dist pos, of bl2] by auto
  have here: "count_list bl2 k = recomputed tot bl k n"
    by (auto simp add: bl2_def bl1_def recomputed_def count_list_remove1 count_list_0_iff)
  have other: "count_list bl2 c = count_list bl c \<and> (c \<in> set bl2 \<longleftrightarrow> c \<in> set bl)"
    if "c \<noteq> k" for c
  proof -
    have "count_list bl2 c = count_list bl c"
      using that by (auto simp add: bl2_def bl1_def count_list_remove1)
    then show ?thesis
      by (metis count_list_0_iff)
  qed
  have "count_list bl' c =
            (case map_of (item # items) c of
               None \<Rightarrow> count_list bl c
             | Some n \<Rightarrow> recomputed tot bl c n)" for c
  proof (cases "c = k")
    case True
    then show ?thesis using cnt [of k] fresh here by (simp add: item)
  next
    case False
    then show ?thesis
      using cnt [of c] other [OF False]
      by (auto simp add: item recomputed_def split: option.splits)
  qed
  then show ?case using step run by simp
qed

lemma negative_codes_append:
  "negative_codes P (xs @ ys) = negative_codes P xs @ negative_codes P ys"
  by (simp add: negative_codes_def)

lemma negative_codes_replicate:
  "negative_codes P (replicate n r) =
     (case resp r of
        None \<Rightarrow> []
      | Some p \<Rightarrow> if service p = 0x7f then replicate n (get_negative_response_code P p)
                  else [])"
  by (induction n) (auto simp add: negative_codes_def split: option.splits)

lemma count_list_replicate:
  "count_list (replicate n x) c = (if x = c then n else 0)"
  by (induction n) auto

text \<open>
  C5. \<^verbatim>\<open>_prepare_negative_response_blacklist\<close> returns, changes only the blacklist, and
  for every code \<open>c\<close>, with \<open>n\<close> its number of occurrences among the \<open>tot\<close> negative
  responses stored: a code that was not on the blacklist is on it afterwards (once)
  exactly when \<open>n > 30\<close> and \<open>n / tot > 3/10\<close>; a code that was on the blacklist and
  occurs at least once loses an occurrence exactly when \<open>n < 10\<close>; a code that was on
  the blacklist and does not occur stays as it was. The stored results are not touched.
\<close>

theorem blacklist_recomputation:
  "\<exists>bl'. prepare_negative_response_blacklist P e = Inr (e\<lparr>negative_response_blacklist := bl'\<rparr>)
     \<and> (\<forall>c. count_list bl' c =
           (let n = count_list (negative_codes P (results e)) c;
                tot = length (negative_codes P (results e));
                bl = negative_response_blacklist e
            in if c \<in> set bl
               then (if 1 \<le> n \<and> n < 10 then count_list bl c - 1 else count_list bl c)
               else (if 30 < n \<and> (3 / 10 :: rat) < of_nat n / of_nat tot then 1 else 0)))"
proof -
  define codes where "codes = negative_codes P (results e)"
  define d where "d = fold dict_increment codes []"
  define bl where "bl = negative_response_blacklist e"
  have d: "count_nrcs P (results_with_negative_response e) = d"
    by (simp add: results_with_negative_response_def count_nrcs_fold d_def codes_def)
  have len: "length (results_with_negative_response e) = length codes"
    by (simp add: results_with_negative_response_def length_negative_codes codes_def)
  have facts: "distinct (map fst d)" "fst ` set d = set codes"
    "\<And>c. kwargs_pop (map_of d c) 0 = count_list codes c"
    using fold_dict_increment [of "[]" codes] by (simp_all add: d_def kwargs_pop_def)
  have val: "n = count_list codes c \<and> 1 \<le> n" if m: "map_of d c = Some n" for c n
  proof -
    have "c \<in> set codes"
      using m facts(2) by (metis map_of_SomeD fst_conv image_eqI)
    then have "1 \<le> count_list codes c"
      using count_list_0_iff [of codes c] by simp
    then show ?thesis
      using facts(3) [of c] m by (simp add: kwargs_pop_def)
  qed
  have none: "count_list codes c = 0" if m: "map_of d c = None" for c
    using facts(3) [of c] m by (simp add: kwargs_pop_def)
  have pos': "0 < length codes" if "(c, n) \<in> set d" "30 < n" for c n
  proof -
    have "n = count_list codes c"
      using val [of c n] facts(1) that(1) by simp
    then show ?thesis
      using that(2) count_le_length [of codes c] by linarith
  qed
  have pos: "\<forall>(c, n) \<in> set d. 30 < n \<longrightarrow> 0 < length codes"
    using pos' by blast
  obtain bl' where run: "blacklist_loop d (length codes) bl = Inr bl'"
    and cnt: "\<And>c. count_list bl' c =
            (case map_of d c of
               None \<Rightarrow> count_list bl c
             | Some n \<Rightarrow> recomputed (length codes) bl c n)"
    using blacklist_loop_Inr [OF facts(1) pos, of bl] by auto
  have "prepare_negative_response_blacklist P e = Inr (e\<lparr>negative_response_blacklist := bl'\<rparr>)"
    by (simp add: prepare_negative_response_blacklist_def d len run [unfolded bl_def])
  moreover have "count_list bl' c =
           (let n = count_list codes c; tot = length codes
            in if c \<in> set bl
               then (if 1 \<le> n \<and> n < 10 then count_list bl c - 1 else count_list bl c)
               else (if 30 < n \<and> (3 / 10 :: rat) < of_nat n / of_nat tot then 1 else 0))"
    for c
  proof (cases "map_of d c")
    case None
    then show ?thesis
      using cnt [of c] none [OF None] by (simp add: count_list_0_iff Let_def)
  next
    case (Some n)
    then show ?thesis
      using cnt [of c] val [OF Some] by (simp add: recomputed_def Let_def)
  qed
  ultimately show ?thesis
    by (auto simp add: codes_def bl_def Let_def)
qed

text \<open>
  100 negative responses: 40 with code \<open>0x22\<close>, 9 with \<open>0x10\<close>, 51 with \<open>0x11\<close>. Code
  \<open>0x22\<close> is added, \<open>0x10\<close> removed, \<open>0x11\<close> kept, and the results are the same.
\<close>

theorem blacklist_recomputation_witness:
  "negative_response_blacklist demo_noisy = [0x10, 0x11]
   \<and> count_list (negative_codes demo_protocol (results demo_noisy)) 0x22 = 40
   \<and> count_list (negative_codes demo_protocol (results demo_noisy)) 0x10 = 9
   \<and> count_list (negative_codes demo_protocol (results demo_noisy)) 0x11 = 51
   \<and> length (negative_codes demo_protocol (results demo_noisy)) = 100
   \<and> (\<exists>e'. prepare_negative_response_blacklist demo_protocol demo_noisy = Inr e'
         \<and> results e' = results demo_noisy
         \<and> count_list (negative_response_blacklist e') 0x22 = 1
         \<and> count_list (negative_response_blacklist e') 0x10 = 0
         \<and> count_list (negative_response_blacklist e') 0x11 = 1
         \<and> count_list (negative_response_blacklist e') 0x21 = 0)"
proof -
  have codes: "negative_codes demo_protocol (results demo_noisy)
      = replicate 40 0x22 @ replicate 9 0x10 @ replicate 51 0x11"
    by (simp add: demo_noisy_def negative_codes_append negative_codes_replicate
        response_reset_def response_unsupported_def demo_result_def demo_defs)
  have bl: "negative_response_blacklist demo_noisy = [0x10, 0x11]"
    by (simp add: demo_noisy_def demo_defs)
  obtain bl' where run: "prepare_negative_response_blacklist demo_protocol demo_noisy
      = Inr (demo_noisy\<lparr>negative_response_blacklist := bl'\<rparr>)"
    and cnt: "\<And>c. count_list bl' c =
           (let n = count_list (negative_codes demo_protocol (results demo_noisy)) c;
                tot = length (negative_codes demo_protocol (results demo_noisy));
                bl = negative_response_blacklist demo_noisy
            in if c \<in> set bl
               then (if 1 \<le> n \<and> n < 10 then count_list bl c - 1 else count_list bl c)
               else (if 30 < n \<and> (3 / 10 :: rat) < of_nat n / of_nat tot then 1 else 0))"
    using blacklist_recomputation [of demo_protocol demo_noisy] by blast
  show ?thesis
    using cnt [of "0x22"] cnt [of "0x10"] cnt [of "0x11"] cnt [of "0x21"]
    by (simp add: run codes bl count_list_replicate)
qed

section \<open>Statistics: the report\<close>

lemma answertimes_where_latencies:
  "answertimes_where population (filter (\<lambda>r. resp r \<noteq> None) data) = latencies population data"
  by (induction data)
     (auto simp add: answertimes_where_def latencies_def split: option.splits)

lemma stat_min_report: "stat_min str_round ts = report str_round (\<lambda>ts. Min (set ts)) ts"
proof (cases ts)
  case Nil
  then show ?thesis by (simp add: stat_min_def report_def)
next
  case (Cons t ts')
  then show ?thesis
    using Min.set_eq_fold [of t ts'] by (simp add: stat_min_def report_def)
qed

lemma stat_max_report: "stat_max str_round ts = report str_round (\<lambda>ts. Max (set ts)) ts"
proof (cases ts)
  case Nil
  then show ?thesis by (simp add: stat_max_def report_def)
next
  case (Cons t ts')
  then show ?thesis
    using Max.set_eq_fold [of t ts'] by (simp add: stat_max_def report_def)
qed

lemma stat_avg_report: "stat_avg str_round ts = report str_round mean ts"
  by (simp add: stat_avg_def report_def mean_def)

lemma data_set_statistics_eq:
  "data_set_statistics str_round desc data = statistics_of str_round (desc, data)"
  unfolding data_set_statistics_def statistics_of_def latency_report_def Let_def
    answertimes_where_latencies stat_min_report stat_max_report stat_avg_report
  by simp

text \<open>
  C9. \<^verbatim>\<open>_compute_statistics\<close> yields, for the data set of all results and then for the
  data set of each tracked state, the numbers of answered, unanswered and negative
  results, and for each of the three latency populations (all responses, negative ones,
  positive ones) the minimum, the maximum and the mean of the latencies, each rendered by
  \<open>str_round\<close>, or \<^verbatim>\<open>-\<close> when the population has no latency.
\<close>

theorem compute_statistics_correct:
  "compute_statistics str_round P e = concat (map (statistics_of str_round) (data_sets P e))"
  by (simp add: compute_statistics_def data_sets_def data_set_statistics_eq comp_def)

text \<open>
  Three answered results of state 1 with latencies 1, 2 and 3 (the first and the last
  negative) and one unanswered, one unanswered result of state 2, and a tracked state 3
  without results.
\<close>

theorem compute_statistics_correct_witness:
  "compute_statistics demo_str_round demo_protocol demo_timed =
     [(''all'', ''num_answered'', ''3''),
      (''all'', ''num_unanswered'', ''2''),
      (''all'', ''num_negative_resps'', ''2''),
      (''all'', ''answertime_min'', ''1.0''),
      (''all'', ''answertime_max'', ''3.0''),
      (''all'', ''answertime_avg'', ''2.0''),
      (''all'', ''answertime_min_nr'', ''1.0''),
      (''all'', ''answertime_max_nr'', ''3.0''),
      (''all'', ''answertime_avg_nr'', ''2.0''),
      (''all'', ''answertime_min_pr'', ''2.0''),
      (''all'', ''answertime_max_pr'', ''2.0''),
      (''all'', ''answertime_avg_pr'', ''2.0''),
      (''1'', ''num_answered'', ''3''),
      (''1'', ''num_unanswered'', ''1''),
      (''1'', ''num_negative_resps'', ''2''),
      (''1'', ''answertime_min'', ''1.0''),
      (''1'', ''answertime_max'', ''3.0''),
      (''1'', ''answertime_avg'', ''2.0''),
      (''1'', ''answertime_min_nr'', ''1.0''),
      (''1'', ''answertime_max_nr'', ''3.0''),
      (''1'', ''answertime_avg_nr'', ''2.0''),
      (''1'', ''answertime_min_pr'', ''2.0''),
      (''1'', ''answertime_max_pr'', ''2.0''),
      (''1'', ''answertime_avg_pr'', ''2.0''),
      (''3'', ''num_answered'', ''0''),
      (''3'', ''num_unanswered'', ''0''),
      (''3'', ''num_negative_resps'', ''0''),
      (''3'', ''answertime_min'', ''-''),
      (''3'', ''answertime_max'', ''-''),
      (''3'', ''answertime_avg'', ''-''),
      (''3'', ''answertime_min_nr'', ''-''),
      (''3'', ''answertime_max_nr'', ''-''),
      (''3'', ''answertime_avg_nr'', ''-''),
      (''3'', ''answertime_min_pr'', ''-''),
      (''3'', ''answertime_max_pr'', ''-''),
      (''3'', ''answertime_avg_pr'', ''-'')]"
proof -
  have sets: "data_sets demo_protocol demo_timed =
      [(''all'', results demo_timed),
       (''1'', [timed_result 1 (Some response_cond) 10 11,
                timed_result 1 (Some response_session) 20 22,
                timed_result 1 None 30 0, timed_result 1 (Some response_cond) 40 43]),
       (''3'', [])]"
    by (simp add: data_sets_def demo_timed_def timed_result_def demo_defs)
  have r: "demo_str_round 1 = ''1.0''" "demo_str_round 2 = ''2.0''" "demo_str_round 3 = ''3.0''"
    by (simp_all add: demo_str_round_def)
  show ?thesis
    unfolding compute_statistics_correct sets
    by (simp add: statistics_of_def latency_report_def report_def latencies_def mean_def
        demo_timed_def timed_result_def is_negative_def r demo_defs)
qed

section \<open>Request stream: order and memoisation\<close>





section \<open>Execution loop: failures, recording, completion\<close>

lemma chain_next_frame:
  assumes "chain_next P st items e = Some (rq, items', e1)"
  shows "results e1 = results e \<and> retry_pkt e1 = retry_pkt e
     \<and> result_packets e1 = result_packets e \<and> state_completed e1 = state_completed e"
  using assms by (auto simp add: chain_next_def split: list.splits option.splits)

lemma evaluate_response_results:
  "results (snd (evaluate_response P kw e st rq res)) = results e"
  by (auto simp add: evaluate_response_def set_completed_def set_retry_def Let_def
      split: option.splits)


lemma execute_loop_results:
  "execute_loop fuel P W kw tmo budget start_time st items e w = Some (out, e', w')
   \<Longrightarrow> \<exists>more. results e' = results e @ more"
proof (induction fuel arbitrary: items e w)
  case 0
  then show ?case by simp
next
  case (Suc n)
  show ?case
  proof (cases "chain_next P st items e")
    case None
    then show ?thesis using Suc.prems by (auto simp add: set_completed_def)
  next
    case (Some nxt)
    obtain rq items' e1 where nxt: "nxt = (rq, items', e1)" by (cases nxt)
    note fr = chain_next_frame [OF Some [unfolded nxt]]
    obtain ex w1 where ex: "sr1 W w rq tmo = (ex, w1)" by (cases "sr1 W w rq tmo")
    show ?thesis
    proof (cases ex)
      case (Raises x)
      then show ?thesis
        using Suc.prems Some nxt ex fr by (auto simp add: set_retry_def split: if_splits)
    next
      case (Answers ts res)
      show ?thesis
      proof (cases "closed W w1")
        case True
        then show ?thesis using Suc.prems Some nxt ex fr Answers by auto
      next
        case False
        obtain e2 where e2: "store_result e1 st (rq\<lparr>sent_time := ts\<rparr>) res = Inr e2"
          and r2: "\<exists>r. results e2 = results e1 @ [r]"
          using store_result_Inr [of e1 st "rq\<lparr>sent_time := ts\<rparr>" res] by auto
        obtain stop e3 where ev: "evaluate_response P kw e2 st (rq\<lparr>sent_time := ts\<rparr>) res = (stop, e3)"
          by (cases "evaluate_response P kw e2 st (rq\<lparr>sent_time := ts\<rparr>) res")
        have r3: "results e3 = results e2"
          using evaluate_response_results [of P kw e2 st "rq\<lparr>sent_time := ts\<rparr>" res] ev by simp
        obtain now w2 where tt: "time_time W w1 = (now, w2)" by (cases "time_time W w1")
        show ?thesis
        proof (cases "stop \<or> start_time + budget < now")
          case True
          then show ?thesis
            using Suc.prems Some nxt ex fr Answers False e2 r2 ev r3 tt
            by (cases stop) (auto split: if_splits)
        next
          case cont: False
          then have "execute_loop n P W kw tmo budget start_time st items' e3 w2 = Some (out, e', w')"
            using Suc.prems Some nxt ex Answers False e2 ev tt by simp
          from Suc.IH [OF this] show ?thesis
            using r2 r3 fr by auto
        qed
      qed
    qed
  qed
qed

text \<open>
  C3. At any iteration of the loop of \<^verbatim>\<open>execute\<close>, first or later, whose exchange raises
  \<^verbatim>\<open>OSError\<close>, \<^verbatim>\<open>ValueError\<close> or \<^verbatim>\<open>Scapy_Exception\<close>: the call ends there with that
  exception; the request becomes the state's retry entry when the state had none, and
  the entry stays as it is when it had one. Nothing else of the enumerator changes but
  the position of the iterator the request was drawn from.
\<close>

theorem transport_failure:
  assumes "chain_next P st items e = Some (rq, items', e1)"
      and "sr1 W w rq tmo = (Raises x, w1)"
      and "caught x"
  shows "execute_loop (Suc n) P W kw tmo budget start_time st items e w =
           Some (Inl x,
                 (if retry_pkt e st = None
                  then e1\<lparr>retry_pkt := (retry_pkt e)(st := Some (RetryPacket rq))\<rparr>
                  else e1),
                 w1)"
  using assms chain_next_frame [OF assms(1)] by (simp add: set_retry_def)

text \<open>
  An \<^verbatim>\<open>OSError\<close> with no retry pending, a \<^verbatim>\<open>ValueError\<close> with request B pending, and a
  call of \<^verbatim>\<open>execute\<close> whose second exchange raises.
\<close>

theorem transport_failure_witness:
  "caught OSError \<and> caught ValueError
   \<and> chain_next demo_protocol 0 [request_B] demo_enumerator = Some (request_B, [], demo_enumerator)
   \<and> sr1 world_failing 1 request_B 1 = (Raises OSError, 2)
   \<and> outcome (execute_loop (Suc 0) demo_protocol world_failing no_kwargs 1 1200 0 0 [request_B]
                 demo_enumerator 1)
       = Some (Inl OSError, Some (RetryPacket request_B), [], [], 2)
   \<and> chain_next demo_protocol 0 [request_A] demo_pending = Some (request_A, [], demo_pending)
   \<and> sr1 world_failing 2 request_A 1 = (Raises ValueError, 3)
   \<and> outcome (execute_loop (Suc 0) demo_protocol world_failing no_kwargs 1 1200 0 0 [request_A]
                 demo_pending 2)
       = Some (Inl ValueError, Some (RetryPacket request_B), [], [], 3)
   \<and> outcome (execute (Suc (Suc (Suc 0))) demo_protocol world_failing demo_enumerator 0 0 no_kwargs)
       = Some (Inl OSError, Some (RetryPacket request_B),
               [(raw request_A, Some (raw response_cond))], [], 2)"
proof -
  have c: "caught OSError" "caught ValueError"
    by (simp_all add: caught_def)
  have n1: "chain_next demo_protocol 0 [request_B] demo_enumerator
      = Some (request_B, [], demo_enumerator)"
    by (simp add: chain_next_def)
  have s1: "sr1 world_failing 1 request_B 1 = (Raises OSError, 2)"
    by (simp add: world_failing_def scripted_world_def)
  have n2: "chain_next demo_protocol 0 [request_A] demo_pending
      = Some (request_A, [], demo_pending)"
    by (simp add: chain_next_def)
  have s2: "sr1 world_failing 2 request_A 1 = (Raises ValueError, 3)"
    by (simp add: world_failing_def scripted_world_def)
  have r1: "retry_pkt demo_enumerator 0 = None"
    "retry_pkt demo_pending 0 = Some (RetryPacket request_B)"
    "results demo_enumerator = []" "results demo_pending = []"
    "state_completed demo_enumerator = []" "state_completed demo_pending = []"
    by (simp_all add: demo_defs demo_pending_def)
  note first = transport_failure [OF n1 s1 c(1), of 0 no_kwargs 1200 0]
  note second = transport_failure [OF n2 s2 c(2), of 0 no_kwargs 1200 0]
  have run: "outcome (execute (Suc (Suc (Suc 0))) demo_protocol world_failing demo_enumerator 0 0 no_kwargs)
       = Some (Inl OSError, Some (RetryPacket request_B),
               [(raw request_A, Some (raw response_cond))], [], 2)"
    by (simp add: run_defs world_failing_def demo_defs demo_pending_def)
  show ?thesis
    using c n1 s1 n2 s2 run first second by (simp add: outcome_def r1 set_retry_def)
qed

text \<open>
  C2, as the code has it. At any iteration whose exchange returns (a response or none):
  when the socket is closed after it, \<^verbatim>\<open>execute\<close> returns there and the store is as
  before; when the socket is open, \<^verbatim>\<open>_store_result\<close> appends the result of the exchange,
  the evaluation runs on the enumerator that holds it, the loop stops or goes on by the
  decision, and whatever the call returns, it returns with that result in the store.
\<close>

theorem exchange_recorded:
  assumes "chain_next P st items e = Some (rq, items', e1)"
      and "sr1 W w rq tmo = (Answers ts res, w1)"
  shows "(closed W w1 \<longrightarrow>
            execute_loop (Suc n) P W kw tmo budget start_time st items e w
              = Some (Inr SocketClosed, e1, w1)
          \<and> results e1 = results e)
     \<and> (\<not> closed W w1 \<longrightarrow>
          (\<exists>e2. store_result e1 st (rq\<lparr>sent_time := ts\<rparr>) res = Inr e2
             \<and> results e2 = results e
                   @ [result_of_call (result_packets e2) (st, rq\<lparr>sent_time := ts\<rparr>, res)]
             \<and> execute_loop (Suc n) P W kw tmo budget start_time st items e w =
                 (case evaluate_response P kw e2 st (rq\<lparr>sent_time := ts\<rparr>) res of
                    (True, e3) \<Rightarrow> Some (Inr StoppedByEvaluation, e3, w1)
                  | (False, e3) \<Rightarrow>
                      (case time_time W w1 of
                         (now, w2) \<Rightarrow>
                           if start_time + budget < now
                           then Some (Inr ExecutionTimeOver, e3, w2)
                           else execute_loop n P W kw tmo budget start_time st items' e3 w2))
             \<and> (\<forall>out e' w'.
                   execute_loop (Suc n) P W kw tmo budget start_time st items e w
                     = Some (out, e', w')
                   \<longrightarrow> (\<exists>more. results e' = results e2 @ more))))"
proof -
  let ?rq = "rq\<lparr>sent_time := ts\<rparr>"
  note fr = chain_next_frame [OF assms(1)]
  have shut: "execute_loop (Suc n) P W kw tmo budget start_time st items e w
      = Some (Inr SocketClosed, e1, w1)" if "closed W w1"
    using assms that by simp
  obtain e2 where e2: "store_result e1 st ?rq res = Inr e2"
    and r2: "results e2 = results e1 @ [result_of_call (result_packets e2) (st, ?rq, res)]"
    using store_result_Inr [of e1 st ?rq res] by (auto simp add: result_of_call_def)
  have loop: "execute_loop (Suc n) P W kw tmo budget start_time st items e w =
         (case evaluate_response P kw e2 st ?rq res of
            (True, e3) \<Rightarrow> Some (Inr StoppedByEvaluation, e3, w1)
          | (False, e3) \<Rightarrow>
              (case time_time W w1 of
                 (now, w2) \<Rightarrow>
                   if start_time + budget < now then Some (Inr ExecutionTimeOver, e3, w2)
                   else execute_loop n P W kw tmo budget start_time st items' e3 w2))"
    if "\<not> closed W w1"
    using assms e2 that by simp
  have later: "\<exists>more. results e' = results e2 @ more"
    if op: "\<not> closed W w1"
      and run: "execute_loop (Suc n) P W kw tmo budget start_time st items e w
        = Some (out, e', w')"
    for out e' w'
  proof -
    obtain stop e3 where ev: "evaluate_response P kw e2 st ?rq res = (stop, e3)"
      by (cases "evaluate_response P kw e2 st ?rq res")
    have r3: "results e3 = results e2"
      using evaluate_response_results [of P kw e2 st ?rq res] ev by simp
    obtain now w2 where tt: "time_time W w1 = (now, w2)"
      by (cases "time_time W w1")
    show ?thesis
    proof (cases "stop \<or> start_time + budget < now")
      case True
      then have "e' = e3"
        using run loop [OF op] ev tt by (cases stop) (auto split: if_splits)
      then show ?thesis using r3 by simp
    next
      case False
      then have "execute_loop n P W kw tmo budget start_time st items' e3 w2
          = Some (out, e', w')"
        using run loop [OF op] ev tt by simp
      from execute_loop_results [OF this] show ?thesis
        using r3 by simp
    qed
  qed
  show ?thesis
    using shut e2 r2 fr loop later by auto
qed

text \<open>
  An exchange whose response stops the call is in the store when the call returns, an
  exchange after which the socket is closed is not, and a call that runs over both
  initial requests stores both exchanges.
\<close>

theorem exchange_recorded_witness:
  "chain_next demo_protocol 0 [request_A] demo_enumerator = Some (request_A, [], demo_enumerator)
   \<and> sr1 (world_answering response_session) 0 request_A 1
       = (Answers (Some 0) (Some response_session), 1)
   \<and> \<not> closed (world_answering response_session) 1
   \<and> outcome (execute_loop (Suc 0) demo_protocol (world_answering response_session) no_kwargs
                 1 1200 0 0 [request_A] demo_enumerator 0)
       = Some (Inr StoppedByEvaluation, None,
               [(raw request_A, Some (raw response_session))], [], 1)
   \<and> sr1 world_closing 0 request_A 1 = (Answers (Some 0) (Some response_session), 1)
   \<and> closed world_closing 1
   \<and> outcome (execute_loop (Suc 0) demo_protocol world_closing no_kwargs
                 1 1200 0 0 [request_A] demo_enumerator 0)
       = Some (Inr SocketClosed, None, [], [], 1)
   \<and> outcome (execute (Suc (Suc (Suc 0))) demo_protocol (world_answering response_cond)
                 demo_enumerator 0 0 no_kwargs)
       = Some (Inr IteratorFinished, None,
               [(raw request_A, Some (raw response_cond)),
                (raw request_B, Some (raw response_cond))], [(0, True)], 2)"
proof -
  let ?W = "world_answering response_session"
  have n: "chain_next demo_protocol 0 [request_A] demo_enumerator
      = Some (request_A, [], demo_enumerator)"
    by (simp add: chain_next_def)
  have s: "sr1 ?W 0 request_A 1 = (Answers (Some 0) (Some response_session), 1)"
    by (simp add: world_answering_def scripted_world_def)
  have o: "\<not> closed ?W 1"
    by (simp add: world_answering_def scripted_world_def)
  have s': "sr1 world_closing 0 request_A 1 = (Answers (Some 0) (Some response_session), 1)"
    by (simp add: world_closing_def scripted_world_def)
  have o': "closed world_closing 1"
    by (simp add: world_closing_def scripted_world_def)
  have d: "retry_pkt demo_enumerator 0 = None" "results demo_enumerator = []"
    "state_completed demo_enumerator = []"
    by (simp_all add: demo_defs)
  obtain e2 where
    e2: "store_result demo_enumerator 0 (request_A\<lparr>sent_time := Some 0\<rparr>)
          (Some response_session) = Inr e2"
    and loop: "execute_loop (Suc 0) demo_protocol ?W no_kwargs 1 1200 0 0 [request_A]
          demo_enumerator 0 =
         (case evaluate_response demo_protocol no_kwargs e2 0
                 (request_A\<lparr>sent_time := Some 0\<rparr>) (Some response_session) of
            (True, e3) \<Rightarrow> Some (Inr StoppedByEvaluation, e3, 1)
          | (False, e3) \<Rightarrow>
              (case time_time ?W 1 of
                 (now, w2) \<Rightarrow>
                   if 0 + 1200 < now then Some (Inr ExecutionTimeOver, e3, w2)
                   else execute_loop 0 demo_protocol ?W no_kwargs 1 1200 0 0 [] e3 w2))"
    using exchange_recorded [OF n s, of 0 no_kwargs 1200 0] o by blast
  have v: "e2 = demo_enumerator\<lparr>result_packets :=
          [(raw request_A, request_A\<lparr>sent_time := Some 0\<rparr>),
           (raw response_session, response_session)],
        results := [\<lparr>state = 0, req = request_A\<lparr>sent_time := Some 0\<rparr>,
           resp = Some response_session, req_ts = 0, resp_ts = Some 0\<rparr>]\<rparr>"
    using e2 by (simp add: store_result_def intern_def demo_defs)
  have stop: "outcome (execute_loop (Suc 0) demo_protocol ?W no_kwargs 1 1200 0 0 [request_A]
                 demo_enumerator 0)
       = Some (Inr StoppedByEvaluation, None,
               [(raw request_A, Some (raw response_session))], [], 1)"
    unfolding loop v by (simp add: evaluate_response_def set_retry_def outcome_def demo_defs)
  have shut: "outcome (execute_loop (Suc 0) demo_protocol world_closing no_kwargs
                 1 1200 0 0 [request_A] demo_enumerator 0)
       = Some (Inr SocketClosed, None, [], [], 1)"
    using exchange_recorded [OF n s', of 0 no_kwargs 1200 0] o' d by (simp add: outcome_def)
  have run: "outcome (execute (Suc (Suc (Suc 0))) demo_protocol (world_answering response_cond)
                 demo_enumerator 0 0 no_kwargs)
       = Some (Inr IteratorFinished, None,
               [(raw request_A, Some (raw response_cond)),
                (raw request_B, Some (raw response_cond))], [(0, True)], 2)"
    by (simp add: run_defs world_answering_def demo_defs)
  show ?thesis
    using n s o s' o' stop shut run by simp
qed

text \<open>
  C2 as stated fails: the socket answers request A and then reports itself closed;
  \<^verbatim>\<open>execute\<close> returns and the store is empty.
\<close>

theorem exchange_recorded_counterexample:
  "sr1 world_closing 0 request_A 1 = (Answers (Some 0) (Some response_session), 1)
   \<and> closed world_closing 1
   \<and> outcome (execute (Suc (Suc (Suc 0))) demo_protocol world_closing demo_enumerator 0 0
                 no_kwargs)
       = Some (Inr SocketClosed, None, [], [], 1)"
  by (simp add: run_defs world_closing_def demo_defs)




text \<open>
  A device that answers every request busy, under the default options. The first call
  sends request A and stops with A pending. The second call sends A again, goes on to
  request B, and stops with B pending: A was sent twice and not a third time.
\<close>

lemma busy_device_run:
  "outcome (execute (Suc (Suc (Suc 0))) demo_protocol (world_answering response_busy)
              demo_enumerator 0 0 no_kwargs)
     = Some (Inr StoppedByEvaluation, Some (RetryPacket (request_A\<lparr>sent_time := Some 0\<rparr>)),
             [(raw request_A, Some (raw response_busy))], [], 1)
   \<and> outcome (execute (Suc (Suc (Suc 0))) demo_protocol (world_answering response_busy)
              demo_after_busy 1 0 no_kwargs)
     = Some (Inr StoppedByEvaluation, Some (RetryPacket (request_B\<lparr>sent_time := Some 0\<rparr>)),
             [(raw request_A, Some (raw response_busy)),
              (raw request_A, Some (raw response_busy)),
              (raw request_B, Some (raw response_busy))], [], 3)"
  by (simp add: demo_after_busy_def run_defs world_answering_def demo_defs)

end
